theory Spec2Isabelle
  imports Main
begin

section \<open>Basic values\<close>

text \<open>
  A JavaScript exception is a value of type \<open>error\<close> carrying its message. An awaited
  call either returns, raises, or never settles; the last case is the value \<open>Hangs\<close>.
\<close>

datatype error = Error string

datatype 'a outcome = Returned 'a | Raised error | Hangs

text \<open>
  What the process does to the outside: a line on the error stream (\<open>console.error\<close>),
  a line on standard output (\<open>console.log\<close>), or a shell command run by \<open>execSync\<close>.
\<close>

datatype effect = Stderr string | Stdout string | Exec string

definition dquote :: char where
  "dquote = CHR 0x22"

definition squote :: char where
  "squote = CHR 0x27"

definition backslash :: char where
  "backslash = CHR 0x5C"

definition newline :: char where
  "newline = CHR 0x0A"

definition show_error :: "error \<Rightarrow> string" where
  "show_error e = (case e of Error m \<Rightarrow> ''Error: '' @ m)"

section \<open>Session events and the listener registered by reviewSkill\<close>

text \<open>
  \<open>SessionEvent\<close> is the tagged union of the SDK, reduced to the tags the listener
  tests. \<open>ToolExecutionStart\<close> carries \<open>event.data.toolName\<close> and the text of
  \<open>JSON.stringify(event.data.parameters)\<close>; \<open>AssistantMessage\<close> carries
  \<open>event.data.content\<close>, \<open>None\<close> when it is null or undefined; \<open>OtherEvent\<close> is any
  event whose type is none of the four.
\<close>

datatype SessionEvent =
    ToolExecutionStart string string
  | ToolExecutionEnd
  | AssistantMessage "string option"
  | SessionIdle
  | OtherEvent string

text \<open>
  The calls \<open>reviewSkill\<close> makes on the client and on the session:
  \<open>client.createSession\<close>, \<open>session.on\<close>, \<open>session.send\<close> with its prompt, and
  \<open>session.destroy\<close>.
\<close>

datatype api_call = CallCreateSession | CallOn | CallSend string | CallDestroy

text \<open>
  The state of one invocation of \<open>reviewSkill\<close>: the closure variable \<open>content\<close>, the
  promise \<open>done\<close> (\<open>None\<close> while pending, \<open>Some v\<close> once fulfilled with \<open>v\<close>), the
  session object (whether it exists, whether \<open>session.on\<close> has registered the listener,
  the prompts passed to \<open>session.send\<close>, whether \<open>session.destroy\<close> has been called),
  the events the session emitted while no listener was registered, the calls made so
  far in the order in which they were made, and the console output so far.
\<close>

record review_state =
  content :: string
  done_promise :: "string option"
  created :: bool
  subscribed :: bool
  prompts :: "string list"
  destroyed :: bool
  missed :: "SessionEvent list"
  calls :: "api_call list"
  console :: "effect list"

text \<open>
  The \<open>resolve\<close> function of a JavaScript promise: the first call fulfils the promise,
  every later call is ignored.
\<close>

definition resolve :: "string \<Rightarrow> string option \<Rightarrow> string option" where
  "resolve v p = (case p of None \<Rightarrow> Some v | Some w \<Rightarrow> Some w)"

text \<open>The nullish coalescing \<open>event.data.content ?? ""\<close>.\<close>

definition nullish_or_empty :: "string option \<Rightarrow> string" where
  "nullish_or_empty c = (case c of None \<Rightarrow> [] | Some s \<Rightarrow> s)"

text \<open>
  The callback passed to \<open>session.on\<close>: four tests on \<open>event.type\<close>, in order. An event
  has one type, so at most one of them succeeds. The two tool events only write a line;
  \<open>assistant.message\<close> assigns \<open>content\<close>; \<open>session.idle\<close> calls \<open>resolve(content)\<close>.
\<close>

fun handler :: "SessionEvent \<Rightarrow> review_state \<Rightarrow> review_state" where
  "handler (ToolExecutionStart toolName params) st =
     st\<lparr>console := console st @
       [Stderr (''[Agent] Calling '' @ toolName @ ''('' @ params @ '')'')]\<rparr>"
| "handler ToolExecutionEnd st =
     st\<lparr>console := console st @ [Stderr ''[Tool]  -> (returned)'']\<rparr>"
| "handler (AssistantMessage c) st = st\<lparr>content := nullish_or_empty c\<rparr>"
| "handler SessionIdle st = st\<lparr>done_promise := resolve (content st) (done_promise st)\<rparr>"
| "handler (OtherEvent t) st = st"

text \<open>
  The session emitting one event: the registered listener runs; with no listener
  registered the event is lost.
\<close>

definition emit :: "SessionEvent \<Rightarrow> review_state \<Rightarrow> review_state" where
  "emit ev st = (if subscribed st then handler ev st else st\<lparr>missed := missed st @ [ev]\<rparr>)"

definition emit_all :: "SessionEvent list \<Rightarrow> review_state \<Rightarrow> review_state" where
  "emit_all evs st = foldl (\<lambda>s ev. emit ev s) st evs"

text \<open>
  \<open>await done\<close>: the caller resumes as soon as the promise is fulfilled; until then the
  session goes on emitting. When the events run out with the promise still pending,
  the caller waits forever (\<open>None\<close>).
\<close>

fun await_done :: "SessionEvent list \<Rightarrow> review_state \<Rightarrow> string option \<times> review_state" where
  "await_done [] st = (done_promise st, st)"
| "await_done (ev # evs) st =
     (case done_promise st of
        Some v \<Rightarrow> (Some v, st)
      | None \<Rightarrow> await_done evs (emit ev st))"

section \<open>The review prompt\<close>

definition unlines :: "string list \<Rightarrow> string" where
  "unlines ls = (case ls of [] \<Rightarrow> [] | l # rest \<Rightarrow> foldl (\<lambda>acc x. acc @ [newline] @ x) l rest)"

definition reviewPrompt :: "string \<Rightarrow> string" where
  "reviewPrompt skillPath = unlines
    [''You are an agent reviewing a skill. Your task is to explore the skill directory,'',
     ''read all relevant files, and produce a one-pager improvement report.'',
     '''',
     ''## Skill Directory'',
     '''',
     ''The skill is located at: '' @ skillPath,
     '''',
     ''## Instructions'',
     '''',
     ''1. Use the list_directory tool to explore the skill directory'',
     ''2. Use the read_file tool to read SKILL.md and any other relevant files'',
     ''3. Explore subdirectories like references/ and scripts/ if they exist'',
     ''4. Read all files that seem relevant to understanding the skill'',
     '''',
     ''Once you have explored the skill thoroughly, produce a structured report with:'',
     '''',
     ''1. **Summary** - What the skill does (2-3 sentences)'',
     ''2. **Strengths** - What works well (bullet points)'',
     ''3. **Areas for Improvement** - Specific suggestions (bullet points)'',
     ''4. **Priority Actions** - Top 3 recommended changes'',
     ''5. **Code Quality** - Notes on any scripts (if applicable)'',
     '''',
     ''Keep the report concise but actionable. Start exploring now.'']"

section \<open>reviewSkill\<close>

text \<open>
  What the agent on the other side of the session does during one review:
  whether \<open>client.createSession\<close> raises; the events the session emits after
  \<open>session.send\<close> has been called and before its promise settles; whether that promise
  rejects; the events the session emits afterwards; whether \<open>session.destroy\<close> raises;
  and whether the \<open>gh\<close> command run for this skill fails. The calls of the SDK
  themselves are taken to settle: the one wait that may last forever is the wait for
  \<open>session.idle\<close>. The program runs on one thread, so no event is delivered between the
  return of \<open>createSession\<close> and the call of \<open>session.send\<close>; the options passed to
  \<open>createSession\<close> (model, streaming, tools) play no part in what follows and are left out.
\<close>

record behaviour =
  create_fails :: "error option"
  during_send :: "SessionEvent list"
  send_fails :: "error option"
  after_send :: "SessionEvent list"
  destroy_fails :: "error option"
  issue_fails :: "error option"

definition initial_state :: "string \<Rightarrow> review_state" where
  "initial_state skillName =
     \<lparr>content = [], done_promise = None, created = False, subscribed = False,
      prompts = [], destroyed = False, missed = [], calls = [],
      console =
        [Stderr ([newline] @ ''=== Reviewing skill: '' @ skillName @ '' ==='' @ [newline]),
         Stderr (''Starting agent with gpt-5.2-codex...'' @ [newline])]\<rparr>"

text \<open>
  The executor of \<open>new Promise\<close>: it declares \<open>content\<close> as the empty text and
  registers the listener with \<open>session.on\<close>; the promise it belongs to is pending.
\<close>

definition subscribe :: "review_state \<Rightarrow> review_state" where
  "subscribe st =
     st\<lparr>content := [], done_promise := None, subscribed := True, calls := calls st @ [CallOn]\<rparr>"

text \<open>
  The call \<open>session.send({ prompt })\<close> up to the moment its promise settles: the session
  takes the prompt, and what the agent emits while the send is in flight is emitted
  now, to whatever listener the session has at this moment.
\<close>

definition session_send :: "behaviour \<Rightarrow> string \<Rightarrow> review_state \<Rightarrow> review_state" where
  "session_send b prompt st =
     emit_all (during_send b)
       (st\<lparr>prompts := prompts st @ [prompt], calls := calls st @ [CallSend prompt]\<rparr>)"

text \<open>
  \<open>reviewSkill\<close>, statement by statement: the two log lines, \<open>createSession\<close>, the promise
  with its listener, \<open>await session.send\<close>, \<open>await done\<close>, \<open>await session.destroy\<close>,
  \<open>return report\<close>. An exception leaves the function at the statement that raised it;
  there is no \<open>try\<close> in it.
\<close>

definition reviewSkill :: "behaviour \<Rightarrow> string \<Rightarrow> string \<Rightarrow> string outcome \<times> review_state" where
  "reviewSkill b skillName skillPath =
     (let st0 = initial_state skillName in
      case create_fails b of
        Some e \<Rightarrow> (Raised e, st0)
      | None \<Rightarrow>
          (let st1 = st0\<lparr>created := True, calls := calls st0 @ [CallCreateSession]\<rparr>;
               st2 = subscribe st1;
               st4 = session_send b (reviewPrompt skillPath) st2
           in case send_fails b of
                Some e \<Rightarrow> (Raised e, st4)
              | None \<Rightarrow>
                  (case await_done (after_send b) st4 of
                     (None, st5) \<Rightarrow> (Hangs, st5)
                   | (Some report, st5) \<Rightarrow>
                       (let st6 = st5\<lparr>destroyed := True, calls := calls st5 @ [CallDestroy]\<rparr> in
                        case destroy_fails b of
                          Some e \<Rightarrow> (Raised e, st6)
                        | None \<Rightarrow> (Returned report, st6)))))"

section \<open>Command-line arguments\<close>

text \<open>
  \<open>args\<close> is \<open>process.argv.slice(2)\<close>. A JavaScript number is \<open>Num n\<close> for an integer,
  \<open>NaN\<close> or \<open>Infinity\<close>; these are the only values \<open>limit\<close> takes.
\<close>

datatype jsnum = Num int | NaN | Infinity

text \<open>\<open>args.includes("--dry-run")\<close>\<close>

definition dryRun :: "string list \<Rightarrow> bool" where
  "dryRun args = (''--dry-run'' \<in> set args)"

text \<open>\<open>Array.prototype.indexOf\<close>: the first position of the value, \<open>-1\<close> when absent.\<close>

fun indexOf_from :: "int \<Rightarrow> 'a list \<Rightarrow> 'a \<Rightarrow> int" where
  "indexOf_from i [] x = - 1"
| "indexOf_from i (y # ys) x = (if y = x then i else indexOf_from (i + 1) ys x)"

definition indexOf :: "'a list \<Rightarrow> 'a \<Rightarrow> int" where
  "indexOf xs x = indexOf_from 0 xs x"

definition limitIndex :: "string list \<Rightarrow> int" where
  "limitIndex args = indexOf args ''--limit''"

text \<open>Indexing an array: \<open>None\<close> is \<open>undefined\<close>, which an out-of-range index gives.\<close>

definition at_index :: "'a list \<Rightarrow> int \<Rightarrow> 'a option" where
  "at_index xs i = (if 0 \<le> i \<and> i < int (length xs) then Some (xs ! nat i) else None)"

text \<open>
  \<open>parseInt(string, 10)\<close> as ECMAScript defines it: leading white space is skipped, one
  sign is read, then the longest run of decimal digits; with no digit the result is
  \<open>NaN\<close>, and whatever follows the digits is ignored. A character is read as a code
  unit below 256, so the white space is TAB, LF, VT, FF, CR, SP and NBSP. The result is
  the exact integer: the rounding to a double, which starts beyond \<open>2^53\<close>, is not
  modelled (no array is that long, so \<open>slice\<close> cannot tell the difference; only the
  number printed in the log can).
\<close>

definition isWhiteSpace :: "char \<Rightarrow> bool" where
  "isWhiteSpace c = (c \<in> set [CHR 0x09, CHR 0x0A, CHR 0x0B, CHR 0x0C, CHR 0x0D, CHR 0x20, CHR 0xA0])"

definition isDigit :: "char \<Rightarrow> bool" where
  "isDigit c = (48 \<le> (of_char c :: nat) \<and> (of_char c :: nat) \<le> 57)"

definition digitVal :: "char \<Rightarrow> nat" where
  "digitVal c = of_char c - 48"

definition digitsVal :: "string \<Rightarrow> nat" where
  "digitsVal ds = foldl (\<lambda>acc c. 10 * acc + digitVal c) 0 ds"

definition parseInt :: "string \<Rightarrow> jsnum" where
  "parseInt s =
     (let S = dropWhile isWhiteSpace s;
          sgn = (case S of c # r \<Rightarrow> if c = CHR ''-'' then - 1 else 1 | [] \<Rightarrow> (1::int));
          S' = (case S of c # r \<Rightarrow> if c = CHR ''+'' \<or> c = CHR ''-'' then r else S | [] \<Rightarrow> S);
          Z = takeWhile isDigit S'
      in if Z = [] then NaN else Num (sgn * int (digitsVal Z)))"

text \<open>
  \<open>limitIndex !== -1 ? parseInt(args[limitIndex + 1], 10) : Infinity\<close>. When
  \<open>--limit\<close> is the last argument the operand is \<open>undefined\<close>, which \<open>parseInt\<close> first
  turns into the text \<open>undefined\<close>.
\<close>

definition limit :: "string list \<Rightarrow> jsnum" where
  "limit args =
     (if limitIndex args \<noteq> - 1
      then parseInt (case at_index args (limitIndex args + 1) of
                       None \<Rightarrow> ''undefined'' | Some s \<Rightarrow> s)
      else Infinity)"

text \<open>The comparison \<open>limit < Infinity\<close>: false for \<open>NaN\<close> and for \<open>Infinity\<close> itself.\<close>

definition less_Infinity :: "jsnum \<Rightarrow> bool" where
  "less_Infinity x = (case x of Num n \<Rightarrow> True | NaN \<Rightarrow> False | Infinity \<Rightarrow> False)"

text \<open>
  \<open>skills.slice(0, end)\<close>: a negative \<open>end\<close> counts from the end of the array, and both
  cases are clamped to the array; \<open>NaN\<close> is read as 0.
\<close>

definition slice0 :: "'a list \<Rightarrow> jsnum \<Rightarrow> 'a list" where
  "slice0 xs e =
     (case e of
        Num n \<Rightarrow> (if n < 0 then take (nat (int (length xs) + n)) xs else take (nat n) xs)
      | NaN \<Rightarrow> take 0 xs
      | Infinity \<Rightarrow> xs)"

text \<open>Decimal text of a number, as a template literal prints it.\<close>

definition digit_char :: "nat \<Rightarrow> char" where
  "digit_char d = char_of (48 + d)"

fun show_nat :: "nat \<Rightarrow> string" where
  "show_nat n = (if n < 10 then [digit_char n] else show_nat (n div 10) @ [digit_char (n mod 10)])"

definition show_int :: "int \<Rightarrow> string" where
  "show_int i = (if i < 0 then ''-'' @ show_nat (nat (- i)) else show_nat (nat i))"

definition show_jsnum :: "jsnum \<Rightarrow> string" where
  "show_jsnum x = (case x of Num n \<Rightarrow> show_int n | NaN \<Rightarrow> ''NaN'' | Infinity \<Rightarrow> ''Infinity'')"

section \<open>discoverSkills\<close>

text \<open>
  A directory entry as \<open>fs.readdir\<close> with \<open>withFileTypes\<close> returns it: its name and the
  answer of \<open>isDirectory()\<close>.
\<close>

record dirent =
  name :: string
  isDirectory :: bool

text \<open>\<open>String.prototype.startsWith\<close>\<close>

definition startsWith :: "string \<Rightarrow> string \<Rightarrow> bool" where
  "startsWith s p = (take (length p) s = p)"

text \<open>
  The argument is what \<open>fs.readdir(skillsDir)\<close> gives: the entries, or the error it
  rejects with, which \<open>discoverSkills\<close> passes on.
\<close>

definition discoverSkills :: "error + dirent list \<Rightarrow> error + string list" where
  "discoverSkills readdir =
     (case readdir of
        Inl e \<Rightarrow> Inl e
      | Inr entries \<Rightarrow>
          Inr (map name (filter (\<lambda>e. isDirectory e \<and> \<not> startsWith (name e) ''.'') entries)))"

section \<open>createGitHubIssue\<close>

text \<open>
  The process environment is a map from variable names to values. A value is truthy
  when it is defined and not the empty text; \<open>a || b\<close> is \<open>a\<close> when \<open>a\<close> is truthy and
  \<open>b\<close> otherwise.
\<close>

type_synonym environment = "string \<rightharpoonup> string"

definition truthy :: "string option \<Rightarrow> bool" where
  "truthy v = (case v of None \<Rightarrow> False | Some s \<Rightarrow> s \<noteq> [])"

definition js_or :: "string option \<Rightarrow> string option \<Rightarrow> string option" where
  "js_or a b = (if truthy a then a else b)"

text \<open>\<open>process.env.GH_PAT || process.env.GH_TOKEN\<close>\<close>

definition ghToken :: "environment \<Rightarrow> string option" where
  "ghToken env = js_or (env ''GH_PAT'') (env ''GH_TOKEN'')"

definition tokenPrefix :: "environment \<Rightarrow> string" where
  "tokenPrefix env =
     (if truthy (ghToken env)
      then ''GH_TOKEN='' @ [dquote] @ nullish_or_empty (ghToken env) @ [dquote] @ '' ''
      else [])"

text \<open>\<open>title.replace(/"/g, '\\"')\<close>: a backslash before every double quote.\<close>

definition escape_quotes :: "string \<Rightarrow> string" where
  "escape_quotes s = concat (map (\<lambda>c. if c = dquote then [backslash, dquote] else [c]) s)"

definition issue_command :: "environment \<Rightarrow> string \<Rightarrow> string \<Rightarrow> string" where
  "issue_command env skillName report =
     (let title = ''Skill Review: '' @ skillName;
          body = report
      in tokenPrefix env @ ''gh issue create --title '' @ [dquote] @ escape_quotes title @ [dquote]
         @ '' --body '' @ [dquote] @ ''$(cat <<'' @ [squote] @ ''EOF'' @ [squote] @ [newline]
         @ body @ [newline] @ ''EOF'' @ [newline] @ '')'' @ [dquote])"

text \<open>
  \<open>exec_fails\<close> says whether \<open>execSync\<close> throws (a non-zero exit of \<open>gh\<close>, for one).
  The \<open>catch\<close> block logs the error and the function returns normally either way.
\<close>

definition createGitHubIssue :: "environment \<Rightarrow> error option \<Rightarrow> string \<Rightarrow> string \<Rightarrow> effect list" where
  "createGitHubIssue env exec_fails skillName report =
     Exec (issue_command env skillName report) #
     (case exec_fails of
        None \<Rightarrow> [Stderr (''[Issue] Created issue for '' @ skillName)]
      | Some e \<Rightarrow>
          [Stderr (''[Error] Failed to create issue for '' @ skillName @ '': '' @ show_error e)])"

section \<open>main\<close>

text \<open>
  Everything outside the program that \<open>main\<close> meets: the environment variables, the
  resolved path of \<open>./skills\<close>, what \<open>fs.readdir\<close> gives there, whether \<open>client.start\<close>
  and \<open>client.stop\<close> raise, and what the agent does for each skill.
\<close>

record world =
  env :: environment
  skillsDir :: string
  readdir :: "error + dirent list"
  start_fails :: "error option"
  stop_fails :: "error option"
  agent :: "string \<Rightarrow> behaviour"

text \<open>
  The result of a run: how it ended, its output in order, and the skills for which
  \<open>reviewSkill\<close> was called, each with what the call gave.
\<close>

record run =
  ending :: "unit outcome"
  trace :: "effect list"
  attempts :: "(string \<times> string outcome) list"

text \<open>\<open>path.join(skillsDir, skillName)\<close> for an entry name, which has no separator in it.\<close>

definition path_join :: "string \<Rightarrow> string \<Rightarrow> string" where
  "path_join dir entry = dir @ ''/'' @ entry"

text \<open>
  The body of the \<open>for\<close> loop with its \<open>try\<close> and \<open>catch\<close>, for one skill: the output
  it produces. A review that never settles produces the output up to that point.
\<close>

definition review_one :: "bool \<Rightarrow> world \<Rightarrow> string \<Rightarrow> string outcome \<times> effect list" where
  "review_one dry w skillName =
     (let skillPath = path_join (skillsDir w) skillName in
      case reviewSkill (agent w skillName) skillName skillPath of
        (Returned report, st) \<Rightarrow>
          (Returned report,
           console st @
           [Stdout ([newline] @ ''--- REPORT: '' @ skillName @ '' ---'' @ [newline]),
            Stdout report,
            Stdout ([newline] @ ''--- END REPORT ---'' @ [newline])] @
           (if dry
            then [Stderr (''[dry-run] Would create issue:'' @ [newline] @
                    ''  gh issue create --title '' @ [dquote] @ ''Skill Review: '' @ skillName @
                    [dquote] @ '' --body '' @ [dquote] @ ''...'' @ [dquote])]
            else createGitHubIssue (env w) (issue_fails (agent w skillName)) skillName report))
      | (Raised e, st) \<Rightarrow>
          (Raised e,
           console st @
           [Stderr (''[Error] Failed to review skill '' @ skillName @ '': '' @ show_error e)])
      | (Hangs, st) \<Rightarrow> (Hangs, console st))"

text \<open>The \<open>for\<close> loop over the skills.\<close>

fun review_loop :: "bool \<Rightarrow> world \<Rightarrow> string list \<Rightarrow> run" where
  "review_loop dry w [] = \<lparr>ending = Returned (), trace = [], attempts = []\<rparr>"
| "review_loop dry w (skillName # rest) =
     (case review_one dry w skillName of
        (Hangs, fx) \<Rightarrow> \<lparr>ending = Hangs, trace = fx, attempts = [(skillName, Hangs)]\<rparr>
      | (r, fx) \<Rightarrow>
          (let later = review_loop dry w rest in
           \<lparr>ending = ending later, trace = fx @ trace later,
            attempts = (skillName, r) # attempts later\<rparr>))"

text \<open>The skills left after the step \<open>if (limit < Infinity) skills = skills.slice(0, limit)\<close>.\<close>

definition limited :: "jsnum \<Rightarrow> string list \<Rightarrow> string list" where
  "limited lim skills = (if less_Infinity lim then slice0 skills lim else skills)"

definition main :: "string list \<Rightarrow> world \<Rightarrow> run" where
  "main args w =
     (let fx0 = [Stderr (''Discovering skills in '' @ skillsDir w @ ''...'')] in
      case discoverSkills (readdir w) of
        Inl e \<Rightarrow> \<lparr>ending = Raised e, trace = fx0, attempts = []\<rparr>
      | Inr found \<Rightarrow>
          (let skills = limited (limit args) found;
               fx1 = (if less_Infinity (limit args)
                      then [Stderr (''Limited to '' @ show_jsnum (limit args) @ '' skill(s)'')]
                      else []);
               fx2 = [Stderr (''Found '' @ show_nat (length skills) @ '' skill(s) to review'' @ [newline])]
           in case start_fails w of
                Some e \<Rightarrow> \<lparr>ending = Raised e, trace = fx0 @ fx1 @ fx2, attempts = []\<rparr>
              | None \<Rightarrow>
                  (let r = review_loop (dryRun args) w skills in
                   case ending r of
                     Hangs \<Rightarrow> r\<lparr>trace := fx0 @ fx1 @ fx2 @ trace r\<rparr>
                   | _ \<Rightarrow>
                       (case stop_fails w of
                          Some e \<Rightarrow> r\<lparr>ending := Raised e, trace := fx0 @ fx1 @ fx2 @ trace r\<rparr>
                        | None \<Rightarrow>
                            r\<lparr>trace := fx0 @ fx1 @ fx2 @ trace r @ [Stderr ([newline] @ ''Done.'')]\<rparr>))))"

section \<open>What the specification talks about\<close>

text \<open>
  The contents of the \<open>assistant.message\<close> events of a sequence, in order, and the
  text of the last of them (the empty text when there is none, or when its content is
  null).
\<close>

fun message_contents :: "SessionEvent list \<Rightarrow> string option list" where
  "message_contents [] = []"
| "message_contents (AssistantMessage c # evs) = c # message_contents evs"
| "message_contents (ev # evs) = message_contents evs"

definition last_assistant_text :: "SessionEvent list \<Rightarrow> string" where
  "last_assistant_text evs =
     (if message_contents evs = [] then [] else nullish_or_empty (last (message_contents evs)))"

definition first_idle_report :: "SessionEvent list \<Rightarrow> string option" where
  "first_idle_report evs =
     (if SessionIdle \<in> set evs
      then Some (last_assistant_text (takeWhile (\<lambda>ev. ev \<noteq> SessionIdle) evs))
      else None)"

text \<open>
  The state of \<open>reviewSkill\<close> at the moment \<open>session.send\<close> has been called and nothing
  has been emitted yet.
\<close>

definition sending :: "string \<Rightarrow> string \<Rightarrow> review_state" where
  "sending skillName skillPath =
     (let st2 = subscribe ((initial_state skillName)\<lparr>created := True, calls := [CallCreateSession]\<rparr>)
      in st2\<lparr>prompts := prompts st2 @ [reviewPrompt skillPath],
             calls := calls st2 @ [CallSend (reviewPrompt skillPath)]\<rparr>)"

text \<open>
  What \<open>reviewSkill\<close> gives for a skill in a world, the lines the two \<open>catch\<close> blocks
  and the dry-run branch write, and the commands that an output runs, in order.
\<close>

definition outcome_of :: "world \<Rightarrow> string \<Rightarrow> string outcome" where
  "outcome_of w skillName =
     fst (reviewSkill (agent w skillName) skillName (path_join (skillsDir w) skillName))"

definition review_error_line :: "string \<Rightarrow> error \<Rightarrow> effect" where
  "review_error_line skillName e =
     Stderr (''[Error] Failed to review skill '' @ skillName @ '': '' @ show_error e)"

definition issue_error_line :: "string \<Rightarrow> error \<Rightarrow> effect" where
  "issue_error_line skillName e =
     Stderr (''[Error] Failed to create issue for '' @ skillName @ '': '' @ show_error e)"

definition dry_run_line :: "string \<Rightarrow> effect" where
  "dry_run_line skillName =
     Stderr (''[dry-run] Would create issue:'' @ [newline] @
             ''  gh issue create --title '' @ [dquote] @ ''Skill Review: '' @ skillName @
             [dquote] @ '' --body '' @ [dquote] @ ''...'' @ [dquote])"

fun executed :: "effect list \<Rightarrow> string list" where
  "executed [] = []"
| "executed (Exec c # fx) = c # executed fx"
| "executed (x # fx) = executed fx"

section \<open>Example inputs\<close>

definition chatty :: behaviour where
  "chatty =
     \<lparr>create_fails = None,
      during_send = [AssistantMessage (Some ''thinking'')],
      send_fails = None,
      after_send = [ToolExecutionStart ''read_file'' ''{}'', ToolExecutionEnd,
                    AssistantMessage (Some ''report''), SessionIdle],
      destroy_fails = None, issue_fails = None\<rparr>"

definition silent :: behaviour where
  "silent =
     \<lparr>create_fails = None, during_send = [], send_fails = None,
      after_send = [ToolExecutionEnd, SessionIdle],
      destroy_fails = None, issue_fails = None\<rparr>"

definition repeated_idle :: "SessionEvent list" where
  "repeated_idle =
     [AssistantMessage (Some ''first''), SessionIdle, AssistantMessage (Some ''second''), SessionIdle]"

definition idles_in_flight :: behaviour where
  "idles_in_flight =
     \<lparr>create_fails = None, during_send = repeated_idle, send_fails = None,
      after_send = [], destroy_fails = None, issue_fails = None\<rparr>"

definition null_after_text :: behaviour where
  "null_after_text =
     \<lparr>create_fails = None, during_send = [], send_fails = None,
      after_send = [AssistantMessage (Some ''report''), AssistantMessage None,
                    ToolExecutionEnd, SessionIdle],
      destroy_fails = None, issue_fails = None\<rparr>"

definition failing_send :: behaviour where
  "failing_send =
     \<lparr>create_fails = None,
      during_send = [AssistantMessage (Some ''partial''), SessionIdle],
      send_fails = Some (Error ''connection lost''),
      after_send = [], destroy_fails = None, issue_fails = None\<rparr>"

definition repo_root :: "dirent list" where
  "repo_root =
     [\<lparr>name = ''.git'', isDirectory = True\<rparr>,
      \<lparr>name = ''alpha'', isDirectory = True\<rparr>,
      \<lparr>name = ''beta'', isDirectory = True\<rparr>]"

definition mixed_root :: "dirent list" where
  "mixed_root =
     [\<lparr>name = ''beta'', isDirectory = True\<rparr>,
      \<lparr>name = ''README.md'', isDirectory = False\<rparr>,
      \<lparr>name = ''.git'', isDirectory = True\<rparr>,
      \<lparr>name = ''.gitignore'', isDirectory = False\<rparr>,
      \<lparr>name = ''alpha'', isDirectory = True\<rparr>]"


definition both_set :: environment where
  "both_set = [''GH_PAT'' \<mapsto> ''override'', ''GH_TOKEN'' \<mapsto> ''ambient'']"


definition troubled :: world where
  "troubled =
     \<lparr>env = Map.empty, skillsDir = ''/repo/skills'', readdir = Inr repo_root,
      start_fails = None, stop_fails = None,
      agent = (\<lambda>s. if s = ''alpha'' then failing_send
                    else chatty\<lparr>issue_fails := Some (Error ''gh exited with 1'')\<rparr>)\<rparr>"

definition quiet_world :: world where
  "quiet_world =
     \<lparr>env = both_set, skillsDir = ''/repo/skills'', readdir = Inr repo_root,
      start_fails = None, stop_fails = None, agent = (\<lambda>s. silent)\<rparr>"

definition two_skills :: world where
  "two_skills =
     \<lparr>env = Map.empty, skillsDir = ''/repo/skills'', readdir = Inr repo_root,
      start_fails = None, stop_fails = None, agent = (\<lambda>s. chatty)\<rparr>"

section \<open>The listener\<close>

lemma emit_all_Nil: "emit_all [] st = st"
  by (simp add: emit_all_def)

lemma emit_all_Cons: "emit_all (ev # evs) st = emit_all evs (emit ev st)"
  by (simp add: emit_all_def)

lemma emit_all_append: "emit_all (xs @ ys) st = emit_all ys (emit_all xs st)"
  by (simp add: emit_all_def)

lemma handler_frame:
  "subscribed (handler ev st) = subscribed st"
  "created (handler ev st) = created st"
  "destroyed (handler ev st) = destroyed st"
  "prompts (handler ev st) = prompts st"
  "missed (handler ev st) = missed st"
  "calls (handler ev st) = calls st"
  by (cases ev; simp)+

lemma emit_subscribed: "subscribed st \<Longrightarrow> emit ev st = handler ev st"
  by (simp add: emit_def)

lemma emit_all_frame:
  assumes "subscribed st"
  shows "subscribed (emit_all evs st) \<and> created (emit_all evs st) = created st \<and>
         destroyed (emit_all evs st) = destroyed st \<and> prompts (emit_all evs st) = prompts st \<and>
         missed (emit_all evs st) = missed st \<and> calls (emit_all evs st) = calls st"
  using assms
  by (induction evs arbitrary: st) (simp_all add: emit_all_Nil emit_all_Cons emit_subscribed handler_frame)

lemma message_contents_append:
  "message_contents (xs @ ys) = message_contents xs @ message_contents ys"
  by (induction xs rule: message_contents.induct) simp_all

lemma handler_content:
  "content (handler ev st) = (case ev of AssistantMessage c \<Rightarrow> nullish_or_empty c | _ \<Rightarrow> content st)"
  by (cases ev) simp_all

lemma handler_done:
  "done_promise (handler ev st) =
     (if ev = SessionIdle then resolve (content st) (done_promise st) else done_promise st)"
  by (cases ev) simp_all

lemma content_emit_all:
  assumes "subscribed st"
  shows "content (emit_all evs st) =
     (if message_contents evs = [] then content st else nullish_or_empty (last (message_contents evs)))"
  using assms
proof (induction evs arbitrary: st)
  case Nil
  then show ?case by (simp add: emit_all_Nil)
next
  case (Cons ev evs)
  have sub: "subscribed (handler ev st)" using Cons.prems by (simp add: handler_frame)
  show ?case
    using Cons.IH [OF sub] Cons.prems
    by (cases ev) (simp_all add: emit_all_Cons emit_subscribed)
qed

lemma done_settled_stays:
  assumes "subscribed st" "done_promise st = Some v"
  shows "done_promise (emit_all evs st) = Some v"
  using assms
  by (induction evs arbitrary: st)
     (simp_all add: emit_all_Nil emit_all_Cons emit_subscribed handler_frame handler_done resolve_def)

lemma done_pending_without_idle:
  assumes "subscribed st" "SessionIdle \<notin> set evs"
  shows "done_promise (emit_all evs st) = done_promise st"
  using assms
  by (induction evs arbitrary: st)
     (auto simp add: emit_all_Nil emit_all_Cons emit_subscribed handler_frame handler_done)

lemma done_at_first_idle:
  assumes "subscribed st" "done_promise st = None" "SessionIdle \<notin> set pre"
  shows "done_promise (emit_all (pre @ SessionIdle # post) st) = Some (content (emit_all pre st))"
proof -
  let ?s = "emit_all pre st"
  have sub: "subscribed ?s" using assms(1) emit_all_frame by blast
  have pend: "done_promise ?s = None" using assms by (simp add: done_pending_without_idle)
  have "done_promise (emit SessionIdle ?s) = Some (content ?s)"
    using sub pend by (simp add: emit_subscribed resolve_def)
  moreover have "subscribed (emit SessionIdle ?s)"
    using sub by (simp add: emit_subscribed)
  ultimately show ?thesis
    by (simp add: emit_all_append emit_all_Cons done_settled_stays)
qed

lemma await_done_fst:
  assumes "subscribed st"
  shows "fst (await_done evs st) = done_promise (emit_all evs st)"
  using assms
proof (induction evs arbitrary: st)
  case Nil
  then show ?case by (simp add: emit_all_Nil)
next
  case (Cons ev evs)
  show ?case
  proof (cases "done_promise st")
    case None
    have "subscribed (emit ev st)" using Cons.prems by (simp add: emit_subscribed handler_frame)
    then show ?thesis using Cons.IH None by (simp add: emit_all_Cons)
  next
    case (Some v)
    then show ?thesis using Cons.prems done_settled_stays [of st v "ev # evs"] by simp
  qed
qed

lemma first_idle_split:
  assumes "SessionIdle \<in> set evs"
  shows "\<exists>post. evs = takeWhile (\<lambda>ev. ev \<noteq> SessionIdle) evs @ SessionIdle # post"
proof -
  have "dropWhile (\<lambda>ev. ev \<noteq> SessionIdle) evs \<noteq> []" using assms by (simp add: dropWhile_eq_Nil_conv) 
  then obtain x post where d: "dropWhile (\<lambda>ev. ev \<noteq> SessionIdle) evs = x # post"
    by (cases "dropWhile (\<lambda>ev. ev \<noteq> SessionIdle) evs") auto
  then have "x = SessionIdle" using hd_dropWhile [of "\<lambda>ev. ev \<noteq> SessionIdle" evs] by force
  then show ?thesis using d takeWhile_dropWhile_id [of "\<lambda>ev. ev \<noteq> SessionIdle" evs] by metis
qed

lemma done_emit_all_listening:
  assumes "subscribed st" "done_promise st = None" "content st = []"
  shows "done_promise (emit_all evs st) = first_idle_report evs"
proof (cases "SessionIdle \<in> set evs")
  case True
  let ?pre = "takeWhile (\<lambda>ev. ev \<noteq> SessionIdle) evs"
  obtain post where sp: "evs = ?pre @ SessionIdle # post" using first_idle_split [OF True] by blast
  have no: "SessionIdle \<notin> set ?pre" by (auto dest: set_takeWhileD)
  have "done_promise (emit_all (?pre @ SessionIdle # post) st) = Some (content (emit_all ?pre st))"
    using assms(1,2) no by (rule done_at_first_idle)
  also have "content (emit_all ?pre st) = last_assistant_text ?pre"
    using assms by (simp add: content_emit_all last_assistant_text_def)
  finally show ?thesis using True sp by (simp add: first_idle_report_def)
next
  case False
  then show ?thesis
    using assms by (simp add: done_pending_without_idle first_idle_report_def)
qed

lemma first_idle_report_split:
  assumes "SessionIdle \<notin> set pre"
  shows "first_idle_report (pre @ SessionIdle # post) = Some (last_assistant_text pre)"
proof -
  have "takeWhile (\<lambda>ev. ev \<noteq> SessionIdle) (pre @ SessionIdle # post) = pre"
    using assms by (induction pre) auto
  then show ?thesis by (simp add: first_idle_report_def)
qed

lemma sending_fields:
  "subscribed (sending n p)" "done_promise (sending n p) = None" "content (sending n p) = []"
  "created (sending n p)" "\<not> destroyed (sending n p)" "missed (sending n p) = []"
  "prompts (sending n p) = [reviewPrompt p]"
  "calls (sending n p) = [CallCreateSession, CallOn, CallSend (reviewPrompt p)]"
  by (simp_all add: sending_def subscribe_def initial_state_def Let_def)

lemma reviewSkill_unfold:
  "reviewSkill b n p =
     (case create_fails b of
        Some e \<Rightarrow> (Raised e, initial_state n)
      | None \<Rightarrow>
          (case send_fails b of
             Some e \<Rightarrow> (Raised e, emit_all (during_send b) (sending n p))
           | None \<Rightarrow>
               (case await_done (after_send b) (emit_all (during_send b) (sending n p)) of
                  (None, st5) \<Rightarrow> (Hangs, st5)
                | (Some report, st5) \<Rightarrow>
                    (case destroy_fails b of
                       Some e \<Rightarrow>
                         (Raised e, st5\<lparr>destroyed := True, calls := calls st5 @ [CallDestroy]\<rparr>)
                     | None \<Rightarrow>
                         (Returned report, st5\<lparr>destroyed := True, calls := calls st5 @ [CallDestroy]\<rparr>)))))"
  by (simp add: reviewSkill_def sending_def session_send_def subscribe_def initial_state_def Let_def
        split: option.splits prod.splits)

lemma await_done_frame:
  assumes "subscribed st"
  shows "subscribed (snd (await_done evs st)) \<and> created (snd (await_done evs st)) = created st \<and>
         destroyed (snd (await_done evs st)) = destroyed st \<and>
         missed (snd (await_done evs st)) = missed st \<and>
         prompts (snd (await_done evs st)) = prompts st \<and>
         calls (snd (await_done evs st)) = calls st \<and>
         done_promise (snd (await_done evs st)) = fst (await_done evs st)"
  using assms
proof (induction evs arbitrary: st)
  case Nil
  then show ?case by simp
next
  case (Cons ev evs)
  show ?case
  proof (cases "done_promise st")
    case None
    have "subscribed (emit ev st)" using Cons.prems by (simp add: emit_subscribed handler_frame)
    from Cons.IH [OF this] show ?thesis
      using None Cons.prems by (simp add: emit_subscribed handler_frame)
  next
    case (Some v)
    then show ?thesis using Cons.prems by simp
  qed
qed

lemma await_after_send:
  "fst (await_done (after_send b) (emit_all (during_send b) (sending n p)))
     = first_idle_report (during_send b @ after_send b)"
proof -
  have sub: "subscribed (emit_all (during_send b) (sending n p))"
    using emit_all_frame [of "sending n p"] by (simp add: sending_fields)
  have "fst (await_done (after_send b) (emit_all (during_send b) (sending n p)))
          = done_promise (emit_all (during_send b @ after_send b) (sending n p))"
    using await_done_fst [OF sub] by (simp add: emit_all_append)
  then show ?thesis by (simp add: done_emit_all_listening sending_fields)
qed

lemma reviewSkill_outcome:
  "fst (reviewSkill b n p) =
     (case create_fails b of
        Some e \<Rightarrow> Raised e
      | None \<Rightarrow>
          (case send_fails b of
             Some e \<Rightarrow> Raised e
           | None \<Rightarrow>
               (case first_idle_report (during_send b @ after_send b) of
                  None \<Rightarrow> Hangs
                | Some report \<Rightarrow>
                    (case destroy_fails b of
                       Some e \<Rightarrow> Raised e
                     | None \<Rightarrow> Returned report))))"
proof -
  obtain r st5 where aw: "await_done (after_send b) (emit_all (during_send b) (sending n p)) = (r, st5)"
    by (cases "await_done (after_send b) (emit_all (during_send b) (sending n p))")
  then have "r = first_idle_report (during_send b @ after_send b)"
    using await_after_send [of b n p] by simp
  then show ?thesis
    using aw by (simp add: reviewSkill_unfold split: option.splits)
qed


lemma message_contents_none:
  "(\<forall>c. AssistantMessage c \<notin> set evs) \<Longrightarrow> message_contents evs = []"
  by (induction evs rule: message_contents.induct) auto

lemma last_assistant_text_none:
  "(\<forall>c. AssistantMessage c \<notin> set evs) \<Longrightarrow> last_assistant_text evs = []"
  by (simp add: last_assistant_text_def message_contents_none)

lemma last_assistant_text_last:
  assumes "\<forall>c'. AssistantMessage c' \<notin> set ys"
  shows "last_assistant_text (xs @ AssistantMessage c # ys) = nullish_or_empty c"
proof -
  have "message_contents (xs @ AssistantMessage c # ys) = message_contents xs @ [c]"
    using assms by (simp add: message_contents_append message_contents_none)
  then show ?thesis
    by (simp add: last_assistant_text_def)
qed

lemma reviewSkill_state:
  assumes "create_fails b = None"
  shows "created (snd (reviewSkill b n p)) \<and> subscribed (snd (reviewSkill b n p)) \<and>
         missed (snd (reviewSkill b n p)) = [] \<and>
         destroyed (snd (reviewSkill b n p)) =
           (send_fails b = None \<and> fst (reviewSkill b n p) \<noteq> Hangs)"
proof -
  let ?s4 = "emit_all (during_send b) (sending n p)"
  have f4: "subscribed ?s4 \<and> created ?s4 \<and> \<not> destroyed ?s4 \<and> missed ?s4 = []"
    using emit_all_frame [of "sending n p" "during_send b"] by (simp add: sending_fields)
  obtain r st5 where aw: "await_done (after_send b) ?s4 = (r, st5)"
    by (cases "await_done (after_send b) ?s4")
  have f5: "subscribed st5 \<and> created st5 \<and> \<not> destroyed st5 \<and> missed st5 = []"
    using await_done_frame [of ?s4 "after_send b"] f4 aw by simp
  show ?thesis
    using assms f4 f5 aw
    by (simp add: reviewSkill_unfold split: option.splits)
qed

lemma subscribe_fields:
  "subscribed (subscribe st)" "done_promise (subscribe st) = None" "content (subscribe st) = []"
  by (simp_all add: subscribe_def)

lemma emit_without_listener:
  "\<not> subscribed st \<Longrightarrow> missed (emit_all evs st) = missed st @ evs \<and> done_promise (emit_all evs st) = done_promise st"
  by (induction evs arbitrary: st) (simp_all add: emit_all_Nil emit_all_Cons emit_def)

section \<open>Claims about reviewSkill\<close>

text \<open>
  C1. When the events of a session end in exactly one \<open>session.idle\<close>, and creating the
  session, sending the prompt and destroying the session all succeed, \<open>reviewSkill\<close>
  returns the content of the last \<open>assistant.message\<close> before the idle event (the empty
  text where that content is null), and the empty text when no \<open>assistant.message\<close>
  came before it.
\<close>

theorem reviewSkill_single_idle:
  assumes "create_fails b = None" and "send_fails b = None" and "destroy_fails b = None"
    and "during_send b @ after_send b = pre @ [SessionIdle]" and "SessionIdle \<notin> set pre"
  shows "(pre = xs @ AssistantMessage c # ys \<and> (\<forall>c'. AssistantMessage c' \<notin> set ys)
            \<longrightarrow> fst (reviewSkill b skillName skillPath) = Returned (nullish_or_empty c)) \<and>
         ((\<forall>c'. AssistantMessage c' \<notin> set pre)
            \<longrightarrow> fst (reviewSkill b skillName skillPath) = Returned [])"
proof -
  have "fst (reviewSkill b skillName skillPath) = Returned (last_assistant_text pre)"
    using assms by (simp add: reviewSkill_outcome first_idle_report_split)
  then show ?thesis
    by (auto simp add: last_assistant_text_last last_assistant_text_none)
qed

theorem reviewSkill_single_idle_witness:
  "fst (reviewSkill chatty ''alpha'' ''/skills/alpha'') = Returned ''report'' \<and>
   fst (reviewSkill silent ''alpha'' ''/skills/alpha'') = Returned []"
proof -
  have a: "fst (reviewSkill chatty ''alpha'' ''/skills/alpha'') = Returned ''report''"
    using reviewSkill_single_idle [of chatty
        "[AssistantMessage (Some ''thinking''), ToolExecutionStart ''read_file'' ''{}'', ToolExecutionEnd,
          AssistantMessage (Some ''report'')]"
        "[AssistantMessage (Some ''thinking''), ToolExecutionStart ''read_file'' ''{}'', ToolExecutionEnd]"
        "Some ''report''" "[]" "''alpha''" "''/skills/alpha''"]
    by (simp add: chatty_def nullish_or_empty_def)
  have b: "fst (reviewSkill silent ''alpha'' ''/skills/alpha'') = Returned []"
    using reviewSkill_single_idle [of silent "[ToolExecutionEnd]" "[]" None "[]" "''alpha''" "''/skills/alpha''"]
    by (simp add: silent_def)
  show ?thesis using a b by simp
qed

text \<open>
  C2. When the events contain more than one \<open>session.idle\<close>, the promise \<open>done\<close> is
  pending up to the first of them and from then on holds the working report text as it
  was at the first idle event: later idle events neither change the value nor settle
  the promise again. \<open>reviewSkill\<close> returns that value.
\<close>

theorem idle_resolves_once:
  assumes "evs = pre @ SessionIdle # post" and "SessionIdle \<notin> set pre" and "SessionIdle \<in> set post"
  shows "(\<forall>k \<le> length evs. done_promise (emit_all (take k evs) (subscribe st)) =
            (if k \<le> length pre then None else Some (content (emit_all pre (subscribe st))))) \<and>
         content (emit_all pre (subscribe st)) = last_assistant_text pre \<and>
         (create_fails b = None \<and> send_fails b = None \<and> destroy_fails b = None \<and>
          during_send b @ after_send b = evs
            \<longrightarrow> fst (reviewSkill b skillName skillPath) = Returned (last_assistant_text pre))"
proof -
  have hist: "done_promise (emit_all (take k evs) (subscribe st)) =
            (if k \<le> length pre then None else Some (last_assistant_text pre))" for k
  proof (cases "k \<le> length pre")
    case True
    then have "take k evs = take k pre" using assms(1) by simp
    moreover have "SessionIdle \<notin> set (take k pre)" using assms(2) by (auto dest: in_set_takeD)
    ultimately show ?thesis
      using True by (simp add: done_pending_without_idle subscribe_fields)
  next
    case False
    then have "take k evs = pre @ SessionIdle # take (k - Suc (length pre)) post"
      using assms(1) by (simp add: take_Cons' Suc_diff_le)
    then show ?thesis
      using False assms(2)
      by (simp add: done_emit_all_listening subscribe_fields first_idle_report_split)
  qed
  have "fst (reviewSkill b skillName skillPath) = Returned (last_assistant_text pre)"
    if "create_fails b = None" "send_fails b = None" "destroy_fails b = None"
       "during_send b @ after_send b = evs"
    using that assms(1,2) by (simp add: reviewSkill_outcome first_idle_report_split)
  moreover have "content (emit_all pre (subscribe st)) = last_assistant_text pre"
    by (simp add: content_emit_all subscribe_fields last_assistant_text_def)
  ultimately show ?thesis using hist by simp
qed

theorem idle_resolves_once_witness:
  "done_promise (emit_all (take 1 repeated_idle) (subscribe (initial_state ''alpha''))) = None \<and>
   done_promise (emit_all (take 2 repeated_idle) (subscribe (initial_state ''alpha''))) = Some ''first'' \<and>
   done_promise (emit_all (take 4 repeated_idle) (subscribe (initial_state ''alpha''))) = Some ''first'' \<and>
   fst (reviewSkill idles_in_flight ''alpha'' ''/skills/alpha'') = Returned ''first''"
proof -
  have split: "repeated_idle =
      [AssistantMessage (Some ''first'')] @ SessionIdle # [AssistantMessage (Some ''second''), SessionIdle]"
    by (simp add: repeated_idle_def)
  have pre: "SessionIdle \<notin> set [AssistantMessage (Some ''first'')]" by simp
  have post: "SessionIdle \<in> set [AssistantMessage (Some ''second''), SessionIdle]" by simp
  note once = idle_resolves_once [OF split pre post, of "initial_state ''alpha''"
      idles_in_flight "''alpha''" "''/skills/alpha''"]
  have last_text: "last_assistant_text [AssistantMessage (Some ''first'')] = ''first''"
    by (simp add: last_assistant_text_def nullish_or_empty_def)
  have len: "length repeated_idle = 4" by (simp add: repeated_idle_def)
  have hist: "\<forall>k \<le> 4. done_promise (emit_all (take k repeated_idle) (subscribe (initial_state ''alpha''))) =
            (if k \<le> 1 then None else Some ''first'')"
    using once last_text len by simp
  have k1: "done_promise (emit_all (take 1 repeated_idle) (subscribe (initial_state ''alpha''))) = None"
    using hist [rule_format, of 1] by simp
  have k2: "done_promise (emit_all (take 2 repeated_idle) (subscribe (initial_state ''alpha''))) = Some ''first''"
    using hist [rule_format, of 2] by simp
  have k4: "done_promise (emit_all (take 4 repeated_idle) (subscribe (initial_state ''alpha''))) = Some ''first''"
    using hist [rule_format, of 4] by simp
  have "fst (reviewSkill idles_in_flight ''alpha'' ''/skills/alpha'') = Returned ''first''"
    using once last_text by (simp add: idles_in_flight_def)
  then show ?thesis using k1 k2 k4 by simp
qed

text \<open>
  C10. An \<open>assistant.message\<close> whose content is null or undefined overwrites the working
  report text with the empty text; when it is the last \<open>assistant.message\<close> before the
  idle event, \<open>reviewSkill\<close> returns the empty text whatever came earlier.
\<close>

theorem null_content_erases_report:
  assumes "create_fails b = None" and "send_fails b = None" and "destroy_fails b = None"
    and "during_send b @ after_send b = pre @ AssistantMessage None # mid @ [SessionIdle]"
    and "SessionIdle \<notin> set pre" and "SessionIdle \<notin> set mid"
    and "\<forall>c. AssistantMessage c \<notin> set mid"
  shows "content (handler (AssistantMessage None) st) = [] \<and>
         fst (reviewSkill b skillName skillPath) = Returned []"
proof -
  have "SessionIdle \<notin> set (pre @ AssistantMessage None # mid)" using assms(5,6) by simp
  then have "first_idle_report ((pre @ AssistantMessage None # mid) @ SessionIdle # [])
               = Some (last_assistant_text (pre @ AssistantMessage None # mid))"
    by (rule first_idle_report_split)
  moreover have "last_assistant_text (pre @ AssistantMessage None # mid) = nullish_or_empty None"
    using assms(7) by (rule last_assistant_text_last)
  ultimately have "first_idle_report (during_send b @ after_send b) = Some []"
    using assms(4) by (simp add: nullish_or_empty_def)
  then show ?thesis
    using assms(1-3) by (simp add: reviewSkill_outcome nullish_or_empty_def)
qed

theorem null_content_erases_report_witness:
  "content (handler (AssistantMessage None) ((initial_state ''alpha'')\<lparr>content := ''report''\<rparr>)) = [] \<and>
   fst (reviewSkill null_after_text ''alpha'' ''/skills/alpha'') = Returned []"
  using null_content_erases_report [of null_after_text "[AssistantMessage (Some ''report'')]"
      "[ToolExecutionEnd]" "(initial_state ''alpha'')\<lparr>content := ''report''\<rparr>" "''alpha''" "''/skills/alpha''"]
  by (simp add: null_after_text_def)

text \<open>
  C3, as stated, fails: when \<open>session.send\<close> raises, \<open>reviewSkill\<close> fails with the
  session created and never destroyed.
\<close>

theorem send_failure_leaks_session:
  "created (snd (reviewSkill failing_send ''alpha'' ''/skills/alpha'')) \<and>
   fst (reviewSkill failing_send ''alpha'' ''/skills/alpha'') = Raised (Error ''connection lost'') \<and>
   \<not> destroyed (snd (reviewSkill failing_send ''alpha'' ''/skills/alpha''))"
  by (simp add: reviewSkill_unfold failing_send_def emit_all_def emit_def sending_def
        subscribe_def initial_state_def Let_def)

text \<open>
  C3, amended. Whenever a session was created and \<open>reviewSkill\<close> completes, the session
  has been destroyed exactly when \<open>session.send\<close> did not raise: it is destroyed after
  the idle event on the success path (also when \<open>session.destroy\<close> itself raises), and
  it is left as it is when sending the prompt raises.
\<close>

theorem session_destroyed_unless_send_fails:
  assumes "create_fails b = None" and "fst (reviewSkill b skillName skillPath) \<noteq> Hangs"
  shows "created (snd (reviewSkill b skillName skillPath)) \<and>
         destroyed (snd (reviewSkill b skillName skillPath)) = (send_fails b = None)"
  using assms reviewSkill_state [of b skillName skillPath] by simp

theorem session_destroyed_unless_send_fails_witness:
  "destroyed (snd (reviewSkill chatty ''alpha'' ''/skills/alpha'')) \<and>
   \<not> destroyed (snd (reviewSkill failing_send ''alpha'' ''/skills/alpha''))"
proof -
  have 1: "fst (reviewSkill chatty ''alpha'' ''/skills/alpha'') \<noteq> Hangs"
    by (simp add: reviewSkill_outcome chatty_def first_idle_report_def)
  have 2: "fst (reviewSkill failing_send ''alpha'' ''/skills/alpha'') \<noteq> Hangs"
    by (simp add: reviewSkill_outcome failing_send_def)
  show ?thesis
    using session_destroyed_unless_send_fails [OF _ 1] session_destroyed_unless_send_fails [OF _ 2]
    by (simp add: chatty_def failing_send_def)
qed

lemma reviewSkill_calls:
  assumes "create_fails b = None"
  shows "prompts (snd (reviewSkill b n p)) = [reviewPrompt p] \<and>
         calls (snd (reviewSkill b n p)) =
           [CallCreateSession, CallOn, CallSend (reviewPrompt p)] @
           (if destroyed (snd (reviewSkill b n p)) then [CallDestroy] else [])"
proof -
  let ?s4 = "emit_all (during_send b) (sending n p)"
  have f4: "subscribed ?s4 \<and> \<not> destroyed ?s4 \<and> prompts ?s4 = [reviewPrompt p] \<and>
            calls ?s4 = [CallCreateSession, CallOn, CallSend (reviewPrompt p)]"
    using emit_all_frame [of "sending n p" "during_send b"] by (simp add: sending_fields)
  obtain r st5 where aw: "await_done (after_send b) ?s4 = (r, st5)"
    by (cases "await_done (after_send b) ?s4")
  have f5: "\<not> destroyed st5 \<and> prompts st5 = [reviewPrompt p] \<and>
            calls st5 = [CallCreateSession, CallOn, CallSend (reviewPrompt p)]"
    using await_done_frame [of ?s4 "after_send b"] f4 aw by simp
  show ?thesis
    using assms f4 f5 aw
    by (simp add: reviewSkill_unfold split: option.splits)
qed

lemma send_without_listener_loses_events:
  assumes "\<not> subscribed st"
  shows "missed (session_send b prompt st) = missed st @ during_send b \<and>
         done_promise (session_send b prompt st) = done_promise st"
  using assms
    emit_without_listener [of "st\<lparr>prompts := prompts st @ [prompt], calls := calls st @ [CallSend prompt]\<rparr>"
      "during_send b"]
  by (simp add: session_send_def)

text \<open>
  C4. \<open>reviewSkill\<close> calls \<open>session.on\<close> before \<open>session.send\<close>, and sends the prompt once.
  So no event that the session emits after the prompt is emitted without a listener;
  and the events emitted while the send is still in flight are handled without waiting
  for the send to complete: when the send then fails, the promise already reflects
  them, and when it succeeds, the report returned is the one at the first idle event of
  all the events, those emitted during the send included.
\<close>

theorem listener_registered_before_send:
  assumes "create_fails b = None"
  shows "calls (snd (reviewSkill b skillName skillPath)) =
           [CallCreateSession, CallOn, CallSend (reviewPrompt skillPath)] @
           (if destroyed (snd (reviewSkill b skillName skillPath)) then [CallDestroy] else []) \<and>
         prompts (snd (reviewSkill b skillName skillPath)) = [reviewPrompt skillPath] \<and>
         missed (snd (reviewSkill b skillName skillPath)) = [] \<and>
         (send_fails b = Some e \<longrightarrow>
            fst (reviewSkill b skillName skillPath) = Raised e \<and>
            done_promise (snd (reviewSkill b skillName skillPath)) = first_idle_report (during_send b)) \<and>
         (send_fails b = None \<and> destroy_fails b = None \<and>
          first_idle_report (during_send b @ after_send b) = Some report \<longrightarrow>
            fst (reviewSkill b skillName skillPath) = Returned report)"
proof -
  have in_flight: "done_promise (snd (reviewSkill b skillName skillPath)) = first_idle_report (during_send b)"
    if "send_fails b = Some e"
  proof -
    have "snd (reviewSkill b skillName skillPath) = emit_all (during_send b) (sending skillName skillPath)"
      using assms that by (simp add: reviewSkill_unfold)
    then show ?thesis by (simp add: sending_fields done_emit_all_listening)
  qed
  have fails: "fst (reviewSkill b skillName skillPath) = Raised e" if "send_fails b = Some e"
    using assms that by (simp add: reviewSkill_outcome)
  have returns: "fst (reviewSkill b skillName skillPath) = Returned report"
    if "send_fails b = None" "destroy_fails b = None"
       "first_idle_report (during_send b @ after_send b) = Some report"
    using assms that by (simp add: reviewSkill_outcome)
  show ?thesis
    using reviewSkill_calls [OF assms, of skillName skillPath]
      reviewSkill_state [OF assms, of skillName skillPath] in_flight fails returns
    by simp
qed

theorem listener_registered_before_send_witness:
  "calls (snd (reviewSkill failing_send ''alpha'' ''/skills/alpha'')) =
     [CallCreateSession, CallOn, CallSend (reviewPrompt ''/skills/alpha'')] \<and>
   missed (snd (reviewSkill failing_send ''alpha'' ''/skills/alpha'')) = [] \<and>
   fst (reviewSkill failing_send ''alpha'' ''/skills/alpha'') = Raised (Error ''connection lost'') \<and>
   done_promise (snd (reviewSkill failing_send ''alpha'' ''/skills/alpha'')) = Some ''partial'' \<and>
   calls (snd (reviewSkill chatty ''alpha'' ''/skills/alpha'')) =
     [CallCreateSession, CallOn, CallSend (reviewPrompt ''/skills/alpha''), CallDestroy] \<and>
   fst (reviewSkill chatty ''alpha'' ''/skills/alpha'') = Returned ''report''"
proof -
  have c1: "create_fails failing_send = None" by (simp add: failing_send_def)
  have s1: "send_fails failing_send = Some (Error ''connection lost'')" by (simp add: failing_send_def)
  have r1: "first_idle_report (during_send failing_send) = Some ''partial''"
    by (simp add: failing_send_def first_idle_report_def last_assistant_text_def nullish_or_empty_def)
  have d1: "\<not> destroyed (snd (reviewSkill failing_send ''alpha'' ''/skills/alpha''))"
    using reviewSkill_state [OF c1, of "''alpha''" "''/skills/alpha''"] s1 by simp
  have c2: "create_fails chatty = None" by (simp add: chatty_def)
  have s2: "send_fails chatty = None \<and> destroy_fails chatty = None" by (simp add: chatty_def)
  have r2: "first_idle_report (during_send chatty @ after_send chatty) = Some ''report''"
    by (simp add: chatty_def first_idle_report_def last_assistant_text_def nullish_or_empty_def)
  have o2: "fst (reviewSkill chatty ''alpha'' ''/skills/alpha'') = Returned ''report''"
    using listener_registered_before_send [OF c2, of "''alpha''" "''/skills/alpha''" _ "''report''"] s2 r2
    by simp
  have d2: "destroyed (snd (reviewSkill chatty ''alpha'' ''/skills/alpha''))"
    using reviewSkill_state [OF c2, of "''alpha''" "''/skills/alpha''"] s2 o2 by simp
  have a: "calls (snd (reviewSkill failing_send ''alpha'' ''/skills/alpha'')) =
             [CallCreateSession, CallOn, CallSend (reviewPrompt ''/skills/alpha'')] \<and>
           missed (snd (reviewSkill failing_send ''alpha'' ''/skills/alpha'')) = [] \<and>
           fst (reviewSkill failing_send ''alpha'' ''/skills/alpha'') = Raised (Error ''connection lost'') \<and>
           done_promise (snd (reviewSkill failing_send ''alpha'' ''/skills/alpha'')) = Some ''partial''"
    using listener_registered_before_send [OF c1, of "''alpha''" "''/skills/alpha''" "Error ''connection lost''"]
      s1 r1 d1 by simp
  have b: "calls (snd (reviewSkill chatty ''alpha'' ''/skills/alpha'')) =
             [CallCreateSession, CallOn, CallSend (reviewPrompt ''/skills/alpha''), CallDestroy]"
    using listener_registered_before_send [OF c2, of "''alpha''" "''/skills/alpha''"] d2 by simp
  show ?thesis using a b o2 by simp
qed

section \<open>Claims about discovery and credentials\<close>

lemma startsWith_dot: "startsWith s ''.'' = (\<exists>rest. s = CHR ''.'' # rest)"
  by (cases s) (auto simp add: startsWith_def)

text \<open>
  C7. \<open>discoverSkills\<close> returns, in listing order, exactly the names of the entries that
  are directories and whose name does not begin with a dot. For the entries \<open>.git\<close>,
  \<open>alpha\<close> and \<open>beta\<close>, all directories, it returns \<open>alpha\<close> and \<open>beta\<close>; files and hidden
  entries are left out in any order of listing. An error of \<open>fs.readdir\<close> is passed on.
\<close>

theorem discoverSkills_visible_directories:
  "discoverSkills (Inr entries) =
     Inr [name e. e \<leftarrow> entries, isDirectory e, \<not> (\<exists>rest. name e = CHR ''.'' # rest)] \<and>
   (\<exists>names. discoverSkills (Inr entries) = Inr names \<and>
      set names = {name e | e. e \<in> set entries \<and> isDirectory e \<and> \<not> (\<exists>rest. name e = CHR ''.'' # rest)}) \<and>
   discoverSkills (Inr repo_root) = Inr [''alpha'', ''beta''] \<and>
   discoverSkills (Inr mixed_root) = Inr [''beta'', ''alpha''] \<and>
   discoverSkills (Inl err) = Inl err"
proof -
  have 1: "discoverSkills (Inr entries) =
     Inr [name e. e \<leftarrow> entries, isDirectory e, \<not> (\<exists>rest. name e = CHR ''.'' # rest)]"
    unfolding discoverSkills_def startsWith_dot
    by (induction entries) simp_all
  have 2: "set [name e. e \<leftarrow> entries, isDirectory e, \<not> (\<exists>rest. name e = CHR ''.'' # rest)]
      = {name e | e. e \<in> set entries \<and> isDirectory e \<and> \<not> (\<exists>rest. name e = CHR ''.'' # rest)}"
    by auto
  have 3: "discoverSkills (Inr repo_root) = Inr [''alpha'', ''beta'']"
    by (simp add: discoverSkills_def repo_root_def startsWith_def)
  have 4: "discoverSkills (Inr mixed_root) = Inr [''beta'', ''alpha'']"
    by (simp add: discoverSkills_def mixed_root_def startsWith_def)
  have 5: "discoverSkills (Inl err) = Inl err"
    by (simp add: discoverSkills_def)
  show ?thesis using 1 2 3 4 5 by simp
qed



section \<open>Claims about the run\<close>

lemma executed_append: "executed (xs @ ys) = executed xs @ executed ys"
  by (induction xs rule: executed.induct) simp_all

lemma executed_set: "set (executed fx) = {c. Exec c \<in> set fx}"
  by (induction fx rule: executed.induct) auto

lemma handler_console_executed: "executed (console (handler ev st)) = executed (console st)"
  by (cases ev) (simp_all add: executed_append)

lemma emit_console_executed: "executed (console (emit ev st)) = executed (console st)"
  by (simp add: emit_def handler_console_executed)

lemma emit_all_console_executed: "executed (console (emit_all evs st)) = executed (console st)"
  by (induction evs arbitrary: st) (simp_all add: emit_all_Nil emit_all_Cons emit_console_executed)

lemma await_done_console_executed:
  "executed (console (snd (await_done evs st))) = executed (console st)"
  by (induction evs arbitrary: st) (simp_all add: emit_console_executed split: option.splits)

lemma reviewSkill_console_executed: "executed (console (snd (reviewSkill b n p))) = []"
proof -
  have i: "executed (console (initial_state n)) = []"
    by (simp add: initial_state_def)
  have s: "executed (console (sending n p)) = []"
    by (simp add: sending_def subscribe_def initial_state_def Let_def)
  let ?s4 = "emit_all (during_send b) (sending n p)"
  have s4: "executed (console ?s4) = []" using s by (simp add: emit_all_console_executed)
  obtain r st5 where aw: "await_done (after_send b) ?s4 = (r, st5)"
    by (cases "await_done (after_send b) ?s4")
  have s5: "executed (console st5) = []"
    using await_done_console_executed [of "after_send b" ?s4] s4 aw by simp
  show ?thesis
    using i s4 s5 aw by (simp add: reviewSkill_unfold split: option.splits)
qed

lemma review_one_fst: "fst (review_one dry w s) = outcome_of w s"
  by (simp add: review_one_def outcome_of_def Let_def split: prod.splits outcome.splits)

lemma review_one_raised:
  "outcome_of w s = Raised e \<Longrightarrow> review_error_line s e \<in> set (snd (review_one dry w s))"
  by (auto simp add: review_one_def outcome_of_def review_error_line_def Let_def
        split: prod.splits outcome.splits)

lemma review_one_issue_failed:
  "outcome_of w s = Returned r \<Longrightarrow> issue_fails (agent w s) = Some e \<Longrightarrow>
     issue_error_line s e \<in> set (snd (review_one False w s))"
  by (auto simp add: review_one_def outcome_of_def issue_error_line_def createGitHubIssue_def Let_def
        split: prod.splits outcome.splits)

lemma review_one_dry:
  "executed (snd (review_one True w s)) = []"
  "outcome_of w s = Returned r \<Longrightarrow> \<exists>before. snd (review_one True w s) = before @ [dry_run_line s]"
proof -
  obtain out st where rs: "reviewSkill (agent w s) s (path_join (skillsDir w) s) = (out, st)"
    by (cases "reviewSkill (agent w s) s (path_join (skillsDir w) s)")
  have c: "executed (console st) = []"
    using reviewSkill_console_executed [of "agent w s" s "path_join (skillsDir w) s"] rs by simp
  show "executed (snd (review_one True w s)) = []"
    using rs c by (cases out) (simp_all add: review_one_def Let_def executed_append)
  show "\<exists>before. snd (review_one True w s) = before @ [dry_run_line s]" if "outcome_of w s = Returned r"
  proof -
    have "snd (review_one True w s) =
        (console st @
           [Stdout ([newline] @ ''--- REPORT: '' @ s @ '' ---'' @ [newline]),
            Stdout r,
            Stdout ([newline] @ ''--- END REPORT ---'' @ [newline])]) @ [dry_run_line s]"
      using rs that by (simp add: review_one_def outcome_of_def dry_run_line_def Let_def)
    then show ?thesis by blast
  qed
qed

lemma review_one_publishes:
  assumes "outcome_of w s = Returned r"
  shows "executed (snd (review_one False w s)) = [issue_command (env w) s r]"
proof -
  obtain out st where rs: "reviewSkill (agent w s) s (path_join (skillsDir w) s) = (out, st)"
    by (cases "reviewSkill (agent w s) s (path_join (skillsDir w) s)")
  have c: "executed (console st) = []"
    using reviewSkill_console_executed [of "agent w s" s "path_join (skillsDir w) s"] rs by simp
  show ?thesis
    using rs c assms
    by (cases "issue_fails (agent w s)")
       (simp_all add: review_one_def outcome_of_def createGitHubIssue_def Let_def executed_append)
qed

lemma review_loop_Cons:
  "review_loop dry w (s # rest) =
     (if outcome_of w s = Hangs
      then \<lparr>ending = Hangs, trace = snd (review_one dry w s), attempts = [(s, Hangs)]\<rparr>
      else \<lparr>ending = ending (review_loop dry w rest),
            trace = snd (review_one dry w s) @ trace (review_loop dry w rest),
            attempts = (s, outcome_of w s) # attempts (review_loop dry w rest)\<rparr>)"
proof (cases "review_one dry w s")
  case (Pair out fx)
  then have "outcome_of w s = out" using review_one_fst [of dry w s] by simp
  then show ?thesis using Pair by (cases out) (simp_all add: Let_def)
qed

lemma review_loop_never_raises: "ending (review_loop dry w skills) \<noteq> Raised e"
  by (induction skills) (simp_all add: review_loop_Cons del: review_loop.simps(2))

lemma review_loop_all_attempted:
  assumes "\<forall>s \<in> set skills. outcome_of w s \<noteq> Hangs"
  shows "ending (review_loop dry w skills) = Returned () \<and>
         attempts (review_loop dry w skills) = map (\<lambda>s. (s, outcome_of w s)) skills \<and>
         trace (review_loop dry w skills) = concat (map (\<lambda>s. snd (review_one dry w s)) skills)"
  using assms by (induction skills) (simp_all add: review_loop_Cons del: review_loop.simps(2))

text \<open>
  C5. The loop over the skills never ends in an exception. When no review waits
  forever, every skill of the sequence is attempted, in order; a review that raised
  is logged with its error, and a failing \<open>gh\<close> invocation is logged as well, after
  which the loop goes on with the next skill.
\<close>

theorem failures_are_isolated:
  "(\<forall>e. ending (review_loop dry w skills) \<noteq> Raised e) \<and>
   ((\<forall>s \<in> set skills. outcome_of w s \<noteq> Hangs) \<longrightarrow>
      ending (review_loop dry w skills) = Returned () \<and>
      map fst (attempts (review_loop dry w skills)) = skills \<and>
      (\<forall>s \<in> set skills. \<forall>e. outcome_of w s = Raised e \<longrightarrow>
         review_error_line s e \<in> set (trace (review_loop dry w skills))) \<and>
      (\<not> dry \<longrightarrow>
         (\<forall>s \<in> set skills. \<forall>r e. outcome_of w s = Returned r \<and> issue_fails (agent w s) = Some e \<longrightarrow>
            issue_error_line s e \<in> set (trace (review_loop dry w skills)))))"
proof -
  have "ending (review_loop dry w skills) = Returned () \<and>
      map fst (attempts (review_loop dry w skills)) = skills \<and>
      (\<forall>s \<in> set skills. \<forall>e. outcome_of w s = Raised e \<longrightarrow>
         review_error_line s e \<in> set (trace (review_loop dry w skills))) \<and>
      (\<not> dry \<longrightarrow>
         (\<forall>s \<in> set skills. \<forall>r e. outcome_of w s = Returned r \<and> issue_fails (agent w s) = Some e \<longrightarrow>
            issue_error_line s e \<in> set (trace (review_loop dry w skills))))"
    if nh: "\<forall>s \<in> set skills. outcome_of w s \<noteq> Hangs"
  proof -
    note all = review_loop_all_attempted [OF nh, of dry]
    have a: "map fst (attempts (review_loop dry w skills)) = skills"
      using all by (simp add: comp_def)
    have b: "review_error_line s e \<in> set (trace (review_loop dry w skills))"
      if "s \<in> set skills" "outcome_of w s = Raised e" for s e
      using all that review_one_raised [of w s e dry] by auto
    have c: "issue_error_line s e \<in> set (trace (review_loop dry w skills))"
      if "\<not> dry" "s \<in> set skills" "outcome_of w s = Returned r" "issue_fails (agent w s) = Some e" for s r e
      using all that review_one_issue_failed [of w s r e] by auto
    show ?thesis using all a b c by blast
  qed
  then show ?thesis using review_loop_never_raises by blast
qed

lemma outcome_of_troubled:
  "outcome_of troubled ''alpha'' = Raised (Error ''connection lost'')"
  "outcome_of troubled ''beta'' = Returned ''report''"
  by (simp_all add: outcome_of_def troubled_def reviewSkill_outcome failing_send_def chatty_def
        first_idle_report_def last_assistant_text_def nullish_or_empty_def)

theorem failures_are_isolated_witness:
  "ending (review_loop False troubled [''alpha'', ''beta'']) = Returned () \<and>
   map fst (attempts (review_loop False troubled [''alpha'', ''beta''])) = [''alpha'', ''beta''] \<and>
   review_error_line ''alpha'' (Error ''connection lost'')
     \<in> set (trace (review_loop False troubled [''alpha'', ''beta''])) \<and>
   issue_error_line ''beta'' (Error ''gh exited with 1'')
     \<in> set (trace (review_loop False troubled [''alpha'', ''beta'']))"
proof -
  have nh: "\<forall>s \<in> set [''alpha'', ''beta'']. outcome_of troubled s \<noteq> Hangs"
    by (simp add: outcome_of_troubled)
  have fails: "issue_fails (agent troubled ''beta'') = Some (Error ''gh exited with 1'')"
    by (simp add: troubled_def)
  note iso = failures_are_isolated [of False troubled "[''alpha'', ''beta'']"]
  have 1: "ending (review_loop False troubled [''alpha'', ''beta'']) = Returned ()"
    and 2: "map fst (attempts (review_loop False troubled [''alpha'', ''beta''])) = [''alpha'', ''beta'']"
    and 3: "\<forall>s \<in> set [''alpha'', ''beta'']. \<forall>e. outcome_of troubled s = Raised e \<longrightarrow>
         review_error_line s e \<in> set (trace (review_loop False troubled [''alpha'', ''beta'']))"
    and 4: "\<forall>s \<in> set [''alpha'', ''beta'']. \<forall>r e. outcome_of troubled s = Returned r \<and>
            issue_fails (agent troubled s) = Some e \<longrightarrow>
            issue_error_line s e \<in> set (trace (review_loop False troubled [''alpha'', ''beta'']))"
    using iso nh by blast+
  have 5: "review_error_line ''alpha'' (Error ''connection lost'')
     \<in> set (trace (review_loop False troubled [''alpha'', ''beta'']))"
    using 3 outcome_of_troubled(1) by simp
  have 6: "issue_error_line ''beta'' (Error ''gh exited with 1'')
     \<in> set (trace (review_loop False troubled [''alpha'', ''beta'']))"
    using 4 outcome_of_troubled(2) fails by simp
  show ?thesis using 1 2 5 6 by simp
qed

lemma review_loop_dry_executed: "executed (trace (review_loop True w skills)) = []"
  by (induction skills)
     (simp_all add: review_loop_Cons executed_append review_one_dry(1) del: review_loop.simps(2))

lemma main_dry_executed:
  assumes "dryRun args"
  shows "executed (trace (main args w)) = []"
proof (cases "discoverSkills (readdir w)")
  case (Inl err)
  then show ?thesis by (simp add: main_def Let_def)
next
  case (Inr found)
  let ?r = "review_loop (dryRun args) w (limited (limit args) found)"
  have "executed (trace (review_loop True w (limited (limit args) found))) = []"
    by (rule review_loop_dry_executed)
  then have r: "executed (trace ?r) = []" using assms by simp
  show ?thesis
  proof (cases "start_fails w")
    case (Some err)
    then show ?thesis using Inr by (simp add: main_def Let_def executed_append)
  next
    case None
    show ?thesis
    proof (cases "ending ?r")
      case Hangs
      then show ?thesis using Inr None r by (simp add: main_def Let_def executed_append)
    next
      case (Returned u)
      then show ?thesis using Inr None r
        by (cases "stop_fails w") (simp_all add: main_def Let_def executed_append)
    next
      case (Raised err)
      then show ?thesis using Inr None r
        by (cases "stop_fails w") (simp_all add: main_def Let_def executed_append)
    qed
  qed
qed

text \<open>
  C9. With \<open>--dry-run\<close> among the arguments no run of the program executes a command,
  whatever the skills and their reports (the empty report included); for a skill whose
  review returned, the last thing the loop body does is print the description of the
  command it would have run.
\<close>

theorem dry_run_runs_no_command:
  assumes "''--dry-run'' \<in> set args"
  shows "executed (trace (main args w)) = [] \<and>
         (\<forall>c. Exec c \<notin> set (trace (main args w))) \<and>
         executed (snd (review_one (dryRun args) w skillName)) = [] \<and>
         (outcome_of w skillName = Returned report \<longrightarrow>
            (\<exists>before. snd (review_one (dryRun args) w skillName) = before @ [dry_run_line skillName]))"
proof -
  have d: "dryRun args" using assms by (simp add: dryRun_def)
  have m: "executed (trace (main args w)) = []" using d by (rule main_dry_executed)
  then have "{c. Exec c \<in> set (trace (main args w))} = {}"
    using executed_set [of "trace (main args w)"] by simp
  then have n: "\<forall>c. Exec c \<notin> set (trace (main args w))" by blast
  have o: "executed (snd (review_one (dryRun args) w skillName)) = []"
    using d review_one_dry(1) [of w skillName] by simp
  show ?thesis
    using d m n o review_one_dry(2) [of w skillName report] by simp
qed

lemma outcome_of_quiet: "outcome_of quiet_world s = Returned []"
  by (simp add: outcome_of_def quiet_world_def reviewSkill_outcome silent_def
        first_idle_report_def last_assistant_text_def)

theorem dry_run_runs_no_command_witness:
  "outcome_of quiet_world ''alpha'' = Returned [] \<and>
   executed (trace (main [''--dry-run''] quiet_world)) = [] \<and>
   (\<exists>before. snd (review_one (dryRun [''--dry-run'']) quiet_world ''alpha'') = before @ [dry_run_line ''alpha''])"
proof -
  have a: "''--dry-run'' \<in> set [''--dry-run'']" by simp
  show ?thesis
    using dry_run_runs_no_command [OF a, of quiet_world "''alpha''" "[]"] outcome_of_quiet [of "''alpha''"]
    by simp
qed

lemma indexOf_from_absent: "x \<notin> set xs \<Longrightarrow> indexOf_from i xs x = - 1"
  by (induction xs arbitrary: i) auto

lemma indexOf_from_first:
  "x \<notin> set pre \<Longrightarrow> indexOf_from i (pre @ x # rest) x = i + int (length pre)"
  by (induction pre arbitrary: i) auto

lemma limit_absent: "''--limit'' \<notin> set args \<Longrightarrow> limit args = Infinity"
  by (simp add: limit_def limitIndex_def indexOf_def indexOf_from_absent)

lemma limitIndex_first:
  "''--limit'' \<notin> set pre \<Longrightarrow> limitIndex (pre @ ''--limit'' # rest) = int (length pre)"
  by (simp add: limitIndex_def indexOf_def indexOf_from_first)

lemma limit_value:
  assumes "''--limit'' \<notin> set pre"
  shows "limit (pre @ ''--limit'' # v # rest) = parseInt v"
proof -
  have "at_index (pre @ ''--limit'' # v # rest) (int (length pre) + 1) = Some v"
    by (simp add: at_index_def nat_add_distrib nth_append)
  then show ?thesis
    using assms by (simp add: limit_def limitIndex_first)
qed

lemma parseInt_undefined: "parseInt ''undefined'' = NaN"
  by (simp add: parseInt_def isWhiteSpace_def isDigit_def Let_def)

lemma limit_last:
  assumes "''--limit'' \<notin> set pre"
  shows "limit (pre @ [''--limit'']) = NaN"
proof -
  have "at_index (pre @ [''--limit'']) (int (length pre) + 1) = None"
    by (simp add: at_index_def)
  then show ?thesis
    using assms by (simp add: limit_def limitIndex_first parseInt_undefined)
qed

lemma limited_cases:
  "limited Infinity found = found"
  "limited NaN found = found"
  "0 \<le> n \<Longrightarrow> limited (Num n) found = take (nat n) found"
  by (simp_all add: limited_def less_Infinity_def slice0_def)

lemma limited_negative:
  assumes "n < 0"
  shows "limited (Num n) found = take (length found - nat (- n)) found"
proof -
  have "nat (int (length found) + n) = length found - nat (- n)" using assms by arith
  then show ?thesis using assms by (simp add: limited_def less_Infinity_def slice0_def)
qed

lemma limited_subset: "set (limited lim found) \<subseteq> set found"
  by (cases lim) (auto simp add: limited_def less_Infinity_def slice0_def dest: in_set_takeD)

lemma main_attempts:
  assumes "discoverSkills (readdir w) = Inr found" and "start_fails w = None"
  shows "attempts (main args w) = attempts (review_loop (dryRun args) w (limited (limit args) found))"
proof (cases "ending (review_loop (dryRun args) w (limited (limit args) found))")
  case Hangs
  then show ?thesis using assms by (simp add: main_def Let_def)
next
  case (Returned u)
  then show ?thesis using assms by (cases "stop_fails w") (simp_all add: main_def Let_def)
next
  case (Raised err)
  then show ?thesis using assms by (cases "stop_fails w") (simp_all add: main_def Let_def)
qed

lemma main_ending:
  assumes "discoverSkills (readdir w) = Inr found" and "start_fails w = None"
    and "ending (review_loop (dryRun args) w (limited (limit args) found)) = Returned ()"
  shows "ending (main args w) = (case stop_fails w of None \<Rightarrow> Returned () | Some e \<Rightarrow> Raised e)"
  using assms by (cases "stop_fails w") (simp_all add: main_def Let_def)

lemma main_reviews_limited:
  assumes "discoverSkills (readdir w) = Inr found" and "start_fails w = None"
    and "\<forall>s \<in> set found. outcome_of w s \<noteq> Hangs"
  shows "map fst (attempts (main args w)) = limited (limit args) found \<and>
         ending (main args w) = (case stop_fails w of None \<Rightarrow> Returned () | Some e \<Rightarrow> Raised e)"
proof -
  have nh: "\<forall>s \<in> set (limited (limit args) found). outcome_of w s \<noteq> Hangs"
    using assms(3) limited_subset [of "limit args" found] by blast
  note all = review_loop_all_attempted [OF nh, of "dryRun args"]
  have "map fst (attempts (review_loop (dryRun args) w (limited (limit args) found)))
          = limited (limit args) found"
    using all by (simp add: comp_def)
  then show ?thesis
    using all assms(1,2) by (simp add: main_attempts main_ending)
qed

lemma outcome_of_two_skills: "outcome_of two_skills s = Returned ''report''"
  by (simp add: outcome_of_def two_skills_def reviewSkill_outcome chatty_def
        first_idle_report_def last_assistant_text_def nullish_or_empty_def)

lemma discover_repo_root: "discoverSkills (Inr repo_root) = Inr [''alpha'', ''beta'']"
  by (simp add: discoverSkills_def repo_root_def startsWith_def)

lemma parseInt_examples:
  "parseInt ''-1'' = Num (- 1)" "parseInt ''1x'' = Num 1" "parseInt ''1'' = Num 1"
  "parseInt ''many'' = NaN" "parseInt [] = NaN"
  by (simp_all add: parseInt_def isWhiteSpace_def isDigit_def digitsVal_def digitVal_def Let_def)

text \<open>
  C6, as stated, fails: with \<open>--limit -1\<close> and two discovered skills the first one is
  reviewed, which is not the first \<open>-1\<close> skills; and with the value \<open>1x\<close>, which is not
  a number, one skill is reviewed instead of all.
\<close>

theorem negative_limit_counterexample:
  "limit [''--limit'', ''-1''] = Num (- 1) \<and>
   discoverSkills (readdir two_skills) = Inr [''alpha'', ''beta''] \<and>
   map fst (attempts (main [''--limit'', ''-1''] two_skills)) = [''alpha''] \<and>
   map fst (attempts (main [''--limit'', ''-1''] two_skills)) \<noteq> take (nat (- 1)) [''alpha'', ''beta''] \<and>
   limit [''--limit'', ''1x''] = Num 1 \<and>
   map fst (attempts (main [''--limit'', ''1x''] two_skills)) = [''alpha''] \<and>
   map fst (attempts (main [''--limit'', ''1x''] two_skills)) \<noteq> [''alpha'', ''beta'']"
proof -
  have d: "discoverSkills (readdir two_skills) = Inr [''alpha'', ''beta'']"
    by (simp add: two_skills_def discover_repo_root)
  have s: "start_fails two_skills = None" by (simp add: two_skills_def)
  have nh: "\<forall>s \<in> set [''alpha'', ''beta'']. outcome_of two_skills s \<noteq> Hangs"
    by (simp add: outcome_of_two_skills)
  have l1: "limit [''--limit'', ''-1''] = Num (- 1)"
    using limit_value [of "[]" "''-1''" "[]"] by (simp add: parseInt_examples)
  have l2: "limit [''--limit'', ''1x''] = Num 1"
    using limit_value [of "[]" "''1x''" "[]"] by (simp add: parseInt_examples)
  have a1: "map fst (attempts (main [''--limit'', ''-1''] two_skills)) = [''alpha'']"
    using main_reviews_limited [OF d s nh, of "[''--limit'', ''-1'']"] l1
    by (simp add: limited_negative)
  have a2: "map fst (attempts (main [''--limit'', ''1x''] two_skills)) = [''alpha'']"
    using main_reviews_limited [OF d s nh, of "[''--limit'', ''1x'']"] l2
    by (simp add: limited_cases)
  show ?thesis using d l1 l2 a1 a2 by simp
qed

text \<open>
  C6, amended. Let discovery and \<open>client.start\<close> succeed and no review wait forever.
  Without \<open>--limit\<close> all discovered skills are reviewed. When the argument after the
  first \<open>--limit\<close> parses (\<open>parseInt\<close>, base 10) to an integer \<open>n\<close> that is not negative,
  exactly the first \<open>n\<close> discovered skills are reviewed (all of them when there are
  fewer). When that argument has no leading decimal integer, or \<open>--limit\<close> is the last
  argument, all discovered skills are reviewed. No error is raised by the limit.
\<close>

theorem limit_flag:
  assumes "discoverSkills (readdir w) = Inr found" and "start_fails w = None"
    and "\<forall>s \<in> set found. outcome_of w s \<noteq> Hangs"
  shows "(''--limit'' \<notin> set args \<longrightarrow> map fst (attempts (main args w)) = found) \<and>
         (''--limit'' \<notin> set pre \<and> parseInt v = Num n \<and> 0 \<le> n \<longrightarrow>
            map fst (attempts (main (pre @ ''--limit'' # v # rest) w)) = take (nat n) found) \<and>
         (''--limit'' \<notin> set pre \<and> parseInt v = NaN \<longrightarrow>
            map fst (attempts (main (pre @ ''--limit'' # v # rest) w)) = found) \<and>
         (''--limit'' \<notin> set pre \<longrightarrow>
            map fst (attempts (main (pre @ [''--limit'']) w)) = found) \<and>
         (stop_fails w = None \<longrightarrow> ending (main args w) = Returned ())"
proof -
  note m = main_reviews_limited [OF assms]
  have 1: "map fst (attempts (main args w)) = found" if "''--limit'' \<notin> set args"
    using m [of args] that by (simp add: limit_absent limited_cases)
  have 2: "map fst (attempts (main (pre @ ''--limit'' # v # rest) w)) = take (nat n) found"
    if "''--limit'' \<notin> set pre" "parseInt v = Num n" "0 \<le> n"
    using m [of "pre @ ''--limit'' # v # rest"] that by (simp add: limit_value limited_cases)
  have 3: "map fst (attempts (main (pre @ ''--limit'' # v # rest) w)) = found"
    if "''--limit'' \<notin> set pre" "parseInt v = NaN"
    using m [of "pre @ ''--limit'' # v # rest"] that by (simp add: limit_value limited_cases)
  have 4: "map fst (attempts (main (pre @ [''--limit'']) w)) = found" if "''--limit'' \<notin> set pre"
    using m [of "pre @ [''--limit'']"] that by (simp add: limit_last limited_cases)
  have 5: "ending (main args w) = Returned ()" if "stop_fails w = None"
    using m [of args] that by simp
  show ?thesis using 1 2 3 4 5 by blast
qed

theorem limit_flag_witness:
  "map fst (attempts (main [] two_skills)) = [''alpha'', ''beta''] \<and>
   map fst (attempts (main [''--limit'', ''1''] two_skills)) = [''alpha''] \<and>
   map fst (attempts (main [''--dry-run'', ''--limit'', ''many''] two_skills)) = [''alpha'', ''beta''] \<and>
   map fst (attempts (main [''--dry-run'', ''--limit''] two_skills)) = [''alpha'', ''beta''] \<and>
   ending (main [''--limit'', ''1''] two_skills) = Returned ()"
proof -
  have d: "discoverSkills (readdir two_skills) = Inr [''alpha'', ''beta'']"
    by (simp add: two_skills_def discover_repo_root)
  have s: "start_fails two_skills = None" by (simp add: two_skills_def)
  have st: "stop_fails two_skills = None" by (simp add: two_skills_def)
  have nh: "\<forall>s \<in> set [''alpha'', ''beta'']. outcome_of two_skills s \<noteq> Hangs"
    by (simp add: outcome_of_two_skills)
  have 1: "map fst (attempts (main [] two_skills)) = [''alpha'', ''beta'']"
    using limit_flag [OF d s nh, of "[]"] by simp
  have 2: "map fst (attempts (main [''--limit'', ''1''] two_skills)) = [''alpha'']"
    using limit_flag [OF d s nh, of _ "[]" "''1''" 1 "[]"] by (simp add: parseInt_examples)
  have 3: "map fst (attempts (main [''--dry-run'', ''--limit'', ''many''] two_skills)) = [''alpha'', ''beta'']"
    using limit_flag [OF d s nh, of _ "[''--dry-run'']" "''many''" _ "[]"] by (simp add: parseInt_examples)
  have 4: "map fst (attempts (main [''--dry-run'', ''--limit''] two_skills)) = [''alpha'', ''beta'']"
    using limit_flag [OF d s nh, of _ "[''--dry-run'']"] by simp
  have 5: "ending (main [''--limit'', ''1''] two_skills) = Returned ()"
    using limit_flag [OF d s nh, of "[''--limit'', ''1'']"] st by simp
  show ?thesis using 1 2 3 4 5 by simp
qed

end
